theory Spec2Isabelle
  imports Main
begin

section \<open>JSON values as the client sees them\<close>

text \<open>
  Documents, resources and links are parsed JSON. Numbers are integers here (no floating
  point); an object is an association list in property order, read by its first entry
  for a key. Links are compared structurally, which is exact for strings. \<open>JNative k\<close> is
  the built-in member that a value inherits under the name \<open>k\<close>; it is never part of a
  document, it only comes out of a property read.
\<close>

datatype jsval =
    JUndefined
  | JNull
  | JBool bool
  | JNum int
  | JStr string
  | JArr "jsval list"
  | JObj "(string \<times> jsval) list"
  | JNative string

datatype error =
    TypeError
  | ReferenceError
  | SyntaxError
  | NetworkError
  | DocumentError jsval
  | Unprocessable

text \<open>Truthiness, as \<open>if (v)\<close>, \<open>v && ...\<close> and \<open>v || ...\<close> decide it.\<close>

fun truthy :: "jsval \<Rightarrow> bool" where
  "truthy JUndefined = False"
| "truthy JNull = False"
| "truthy (JBool b) = b"
| "truthy (JNum n) = (n \<noteq> 0)"
| "truthy (JStr s) = (s \<noteq> [])"
| "truthy (JArr xs) = True"
| "truthy (JObj kvs) = True"
| "truthy (JNative k) = True"

definition digit :: "nat \<Rightarrow> char" where
  "digit n = ''0123456789'' ! n"

fun dec :: "nat \<Rightarrow> string" where
  "dec n = (if n < 10 then [digit n] else dec (n div 10) @ [digit (n mod 10)])"

declare dec.simps [simp del]

text \<open>\<open>Object.getOwnPropertyNames\<close>-style own keys; \<open>null\<close> and \<open>undefined\<close> have none
  and every property access on them throws.\<close>

fun ownKeys :: "jsval \<Rightarrow> error + string list" where
  "ownKeys JUndefined = Inl TypeError"
| "ownKeys JNull = Inl TypeError"
| "ownKeys (JBool b) = Inr []"
| "ownKeys (JNum n) = Inr []"
| "ownKeys (JStr s) = Inr (map dec [0..<length s] @ [''length''])"
| "ownKeys (JArr xs) = Inr (map dec [0..<length xs] @ [''length''])"
| "ownKeys (JObj kvs) = Inr (remdups (map fst kvs))"
| "ownKeys (JNative k) = Inr []"

text \<open>The names that every value inherits from \<open>Object.prototype\<close>.\<close>

definition objectProto :: "string list" where
  "objectProto =
     [''constructor'', ''hasOwnProperty'', ''isPrototypeOf'', ''propertyIsEnumerable'',
      ''toLocaleString'', ''toString'', ''valueOf'', ''__proto__'', ''__defineGetter__'',
      ''__defineSetter__'', ''__lookupGetter__'', ''__lookupSetter__'']"

definition inherited :: "string \<Rightarrow> jsval" where
  "inherited k = (if k \<in> set objectProto then JNative k else JUndefined)"

text \<open>
  \<open>v.hasOwnProperty(k)\<close>. The method is looked up on the value first: a value with an own
  member of that name has a JSON value there, not a function, and the call throws.
\<close>

definition hasOwn :: "jsval \<Rightarrow> string \<Rightarrow> error + bool" where
  "hasOwn v k =
     (case ownKeys v of
        Inl e \<Rightarrow> Inl e
      | Inr ks \<Rightarrow> if ''hasOwnProperty'' \<in> set ks then Inl TypeError else Inr (k \<in> set ks))"

text \<open>
  \<open>v[k]\<close>: the own property, else the member inherited from \<open>Object.prototype\<close>, else
  \<open>undefined\<close>. The further members that arrays, strings, numbers, booleans and functions
  inherit or own are not modelled; the client reads such a name only when a link table
  is not an object.
\<close>

fun getProp :: "jsval \<Rightarrow> string \<Rightarrow> error + jsval" where
  "getProp JUndefined k = Inl TypeError"
| "getProp JNull k = Inl TypeError"
| "getProp (JBool b) k = Inr (inherited k)"
| "getProp (JNum n) k = Inr (inherited k)"
| "getProp (JNative n) k = Inr (inherited k)"
| "getProp (JStr s) k =
     (if k = ''length'' then Inr (JNum (int (length s)))
      else (case find (\<lambda>i. dec i = k) [0..<length s] of
              Some i \<Rightarrow> Inr (JStr [s ! i]) | None \<Rightarrow> Inr (inherited k)))"
| "getProp (JArr xs) k =
     (if k = ''length'' then Inr (JNum (int (length xs)))
      else (case find (\<lambda>i. dec i = k) [0..<length xs] of
              Some i \<Rightarrow> Inr (xs ! i) | None \<Rightarrow> Inr (inherited k)))"
| "getProp (JObj kvs) k =
     (case map_of kvs k of Some v \<Rightarrow> Inr v | None \<Rightarrow> Inr (inherited k))"

text \<open>A value inside a template literal, \<open>`${v}`\<close>.\<close>

fun joinComma :: "string list \<Rightarrow> string" where
  "joinComma [] = []"
| "joinComma [s] = s"
| "joinComma (s # t # ss) = s @ '','' @ joinComma (t # ss)"

fun toStr :: "jsval \<Rightarrow> string" where
  "toStr JUndefined = ''undefined''"
| "toStr JNull = ''null''"
| "toStr (JBool b) = (if b then ''true'' else ''false'')"
| "toStr (JNum n) = (if n < 0 then ''-'' @ dec (nat (- n)) else dec (nat n))"
| "toStr (JStr s) = s"
| "toStr (JArr xs) =
     joinComma (map (\<lambda>v. if v = JUndefined \<or> v = JNull then [] else toStr v) xs)"
| "toStr (JObj kvs) = ''[object Object]''"
| "toStr (JNative k) =
     (if k = ''__proto__'' then ''[object Object]''
      else ''function '' @ k @ ''() { [native code] }'')"

section \<open>Document transport and unwrapping\<close>

text \<open>
  What \<open>fetch(url)\<close> can deliver: a network failure, or an HTTP response with its \<open>ok\<close>
  flag and its body (\<open>None\<close> when the body is not JSON).
\<close>

datatype http_result = NetFail | Http bool "jsval option"

text \<open>
  \<open>fetchDocument\<close>: \<open>res.ok ? res.json() : reject(res.statusText)\<close>. No \<open>reject\<close> is in
  scope there, so a response that is not ok ends in a ReferenceError.
\<close>

fun fetchDocument :: "http_result \<Rightarrow> error + jsval" where
  "fetchDocument NetFail = Inl NetworkError"
| "fetchDocument (Http True (Some doc)) = Inr doc"
| "fetchDocument (Http True None) = Inl SyntaxError"
| "fetchDocument (Http False body) = Inl ReferenceError"

text \<open>\<open>documentData\<close>: the \<open>data\<close> member when there is one, else an error.\<close>

definition documentData :: "jsval \<Rightarrow> error + jsval" where
  "documentData doc =
     (case hasOwn doc ''data'' of
        Inl e \<Rightarrow> Inl e
      | Inr True \<Rightarrow> getProp doc ''data''
      | Inr False \<Rightarrow>
          (case hasOwn doc ''errors'' of
             Inl e \<Rightarrow> Inl e
           | Inr True \<Rightarrow> Inl (DocumentError doc)
           | Inr False \<Rightarrow> Inl Unprocessable))"

section \<open>The pagination engine\<close>

text \<open>
  The closure variables of one \<open>paginate\<close> call. \<open>requests\<close> is the store of the promises
  that \<open>doRequest\<close> has created, in creation order, each with the URL it fetches and its
  state; \<open>collectionRequests\<close> holds indices into it. \<open>genDone\<close> says that the generator has
  returned. \<open>link\<close> is \<open>JBool False\<close> when no next page is known.
\<close>

datatype pstatus = Pending | Fulfilled | Rejected error

record pstate =
  buffer :: "jsval list"
  total_p :: int
  inFlight :: "jsval list"
  link :: jsval
  limit :: int
  count :: int
  collectionRequests :: "nat list"
  requests :: "(jsval \<times> pstatus) list"
  genDone :: bool

text \<open>\<open>doRequest\<close>, up to the call of \<open>fetchDocument\<close>: mark the URL, create the promise.\<close>

definition doRequest :: "pstate \<Rightarrow> jsval \<Rightarrow> nat \<times> pstate" where
  "doRequest st nextLink =
     (length (requests st),
      st\<lparr>inFlight := List.insert nextLink (inFlight st),
         requests := requests st @ [(nextLink, Pending)]\<rparr>)"

text \<open>The \<open>then\<close> callback of \<open>doRequest\<close>, run when the document has arrived. The error is
  what the callback throws, with the state as the throw leaves it.\<close>

definition onDocument :: "pstate \<Rightarrow> jsval \<Rightarrow> jsval \<Rightarrow> error option \<times> pstate" where
  "onDocument st nextLink doc =
     (let st1 = st\<lparr>inFlight := removeAll nextLink (inFlight st)\<rparr> in
      case getProp doc ''links'' of
        Inl e \<Rightarrow> (Some e, st1)
      | Inr ls \<Rightarrow>
         (case getProp ls ''next'' of
            Inl e \<Rightarrow> (Some e, st1)
          | Inr nx \<Rightarrow>
             (let st2 = st1\<lparr>link := (if truthy nx then nx else JBool False)\<rparr> in
              case documentData doc of
                Inl e \<Rightarrow> (Some e, st2)
              | Inr d \<Rightarrow>
                 (let resources = (case d of JArr xs \<Rightarrow> xs | _ \<Rightarrow> [d]) in
                  (None, st2\<lparr>total_p := total_p st2 + int (length resources),
                              buffer := buffer st2 @ resources\<rparr>)))))"

text \<open>The fetch behind promise \<open>i\<close> completes with \<open>resp\<close>: a rejection settles the promise
  and runs nothing; a document runs the callback.\<close>

definition fetchDone :: "pstate \<Rightarrow> nat \<Rightarrow> error + jsval \<Rightarrow> pstate" where
  "fetchDone st i resp =
     (if i < length (requests st) \<and> snd (requests st ! i) = Pending then
        (let u = fst (requests st ! i) in
         case resp of
           Inl e \<Rightarrow> st\<lparr>requests := (requests st)[i := (u, Rejected e)]\<rparr>
         | Inr doc \<Rightarrow>
            (case onDocument st u doc of
               (None, st') \<Rightarrow> st'\<lparr>requests := (requests st')[i := (u, Fulfilled)]\<rparr>
             | (Some e, st') \<Rightarrow> st'\<lparr>requests := (requests st')[i := (u, Rejected e)]\<rparr>))
      else st)"

text \<open>The guard that stands before both calls of \<open>doRequest\<close>.\<close>

definition mayRequest :: "pstate \<Rightarrow> bool" where
  "mayRequest st \<longleftrightarrow>
     truthy (link st) \<and> link st \<notin> set (inFlight st) \<and> (limit st = -1 \<or> total_p st < limit st)"

definition pushRequest :: "pstate \<Rightarrow> pstate" where
  "pushRequest st =
     (if mayRequest st then
        (case doRequest st (link st) of
           (i, s) \<Rightarrow> s\<lparr>collectionRequests := collectionRequests s @ [i]\<rparr>)
      else st)"

text \<open>\<open>advance\<close>: \<open>Some i\<close> when the returned promise waits for request \<open>i\<close>, \<open>None\<close> when
  it is \<open>Promise.resolve(buffer)\<close>.\<close>

definition advance :: "pstate \<Rightarrow> nat option \<times> pstate" where
  "advance st =
     (let st1 = pushRequest st in
      if buffer st1 = [] \<and> collectionRequests st1 \<noteq> [] then
        (Some (hd (collectionRequests st1)),
         st1\<lparr>collectionRequests := tl (collectionRequests st1)\<rparr>)
      else (None, st1))"

definition canContinue :: "pstate \<Rightarrow> bool" where
  "canContinue st \<longleftrightarrow> buffer st \<noteq> [] \<or> inFlight st \<noteq> [] \<or> truthy (link st)"

text \<open>One \<open>cursor.next()\<close>: the generator returns, yields \<open>false\<close>, or yields the promise
  of \<open>advance\<close>.\<close>

datatype pulled = GenReturn | YieldFalse | YieldPromise "nat option"

definition cursorNext :: "pstate \<Rightarrow> pulled \<times> pstate" where
  "cursorNext st =
     (if genDone st then (GenReturn, st)
      else if \<not> canContinue st then (GenReturn, st\<lparr>genDone := True\<rparr>)
      else if limit st = -1 \<or> count st < limit st then
        (case advance st of (w, st') \<Rightarrow> (YieldPromise w, st'))
      else (YieldFalse, st))"

text \<open>The callback chained on \<open>advance()\<close>: count the pull and take the buffer's head,
  \<open>null\<close> when there is none or it is falsy.\<close>

definition takeResource :: "pstate \<Rightarrow> jsval \<times> pstate" where
  "takeResource st =
     (case buffer st of
        [] \<Rightarrow> (JNull, st\<lparr>count := count st + 1\<rparr>)
      | r # rs \<Rightarrow> ((if truthy r then r else JNull), st\<lparr>count := count st + 1, buffer := rs\<rparr>))"

text \<open>\<open>cursor.addMore\<close>; the argument is \<open>None\<close> when the caller passes none.\<close>

definition addMore :: "int option \<Rightarrow> pstate \<Rightarrow> pstate" where
  "addMore many st =
     (let m = (case many of None \<Rightarrow> -1 | Some k \<Rightarrow> k) in
      st\<lparr>limit := (if m = -1 then -1 else limit st + m)\<rparr>)"

text \<open>The engine as \<open>paginate\<close> leaves it: the first request is pushed at construction.\<close>

definition paginate :: "jsval \<Rightarrow> int \<Rightarrow> pstate" where
  "paginate lnk lim =
     pushRequest \<lparr>buffer = [], total_p = 0, inFlight = [], link = lnk, limit = lim,
                  count = 0, collectionRequests = [], requests = [], genDone = False\<rparr>"

section \<open>The client: link table and collection requests\<close>

text \<open>
  A relationship spec is an object whose members are names or spec objects with the
  optional members \<open>field\<close>, \<open>limit\<close> and \<open>relationships\<close>; an object lists each property
  once. \<open>None\<close> stands for \<open>null\<close> or an absent member.
\<close>

datatype relnode =
    RName string
  | RSpec "string option" "int option" "(string \<times> relnode) list option"

datatype target =
  Target (field: "string option") (tlimit: "int option") (trels: "(string \<times> target) list option")

text \<open>A consumer handle is an engine with the relationships it expands; a mirror maps each
  relationship name to the handle of its nested sequence, or to \<open>None\<close> for a rejected
  placeholder.\<close>

type_synonym relmap = "(string \<times> target) list"

type_synonym handle = "pstate \<times> relmap option"

type_synonym mirror = "(string \<times> handle option) list"

text \<open>The \<open>expander\<close> of a node, with the nested \<open>relationships\<close> member mapped the same way
  when the node has one.\<close>

primrec mapNode :: "relnode \<Rightarrow> target" where
  "mapNode (RName s) = Target (Some s) None None"
| "mapNode (RSpec f l r) = Target f l (map_option (map (map_prod id mapNode)) r)"

definition objectMapper :: "(string \<times> relnode) list \<Rightarrow> relmap" where
  "objectMapper node = map (map_prod id mapNode) node"

text \<open>\<open>expandRelationships\<close>: \<open>Object.getOwnPropertyNames(null)\<close> throws.\<close>

definition expandRelationships ::
  "(string \<times> relnode) list option \<Rightarrow> error + relmap" where
  "expandRelationships relationships =
     (case relationships of None \<Rightarrow> Inl TypeError | Some node \<Rightarrow> Inr (objectMapper node))"

record client =
  baseUrl :: string
  links :: "error + jsval"

text \<open>The constructor resolves the link table from the root document: \<open>doc.links || {}\<close>.\<close>

definition newClient :: "string \<Rightarrow> http_result \<Rightarrow> client" where
  "newClient url root =
     \<lparr>baseUrl = url,
      links = (case fetchDocument root of
                 Inl e \<Rightarrow> Inl e
               | Inr doc \<Rightarrow>
                  (case getProp doc ''links'' of
                     Inl e \<Rightarrow> Inl e
                   | Inr l \<Rightarrow> Inr (if truthy l then l else JObj [])))\<rparr>"

text \<open>
  \<open>getLink\<close>: for a type that the table does not have, the callback builds a rejected
  promise and drops it (no \<open>return\<close>, no \<open>throw\<close>), then returns \<open>links[type]\<close> all the same.
\<close>

definition getLink :: "client \<Rightarrow> string \<Rightarrow> error + jsval" where
  "getLink c type =
     (case links c of
        Inl e \<Rightarrow> Inl e
      | Inr ls \<Rightarrow>
         (case hasOwn ls type of
            Inl e \<Rightarrow> Inl e
          | Inr known \<Rightarrow> getProp ls type))"

definition collectionLink :: "client \<Rightarrow> string \<Rightarrow> string \<Rightarrow> string \<Rightarrow> string \<Rightarrow> error + string" where
  "collectionLink c type sort_q filter_q page =
     (let q1 = (if filter_q \<noteq> [] then ''?'' @ filter_q else []);
          q2 = q1 @ (if sort_q \<noteq> [] then (if q1 \<noteq> [] then ''&'' else ''?'') @ ''sort='' @ sort_q else []);
          query = q2 @ (if page \<noteq> [] then (if q2 \<noteq> [] then ''&'' else ''?'') @ page else [])
      in case getLink c type of Inl e \<Rightarrow> Inl e | Inr l \<Rightarrow> Inr (toStr l @ query))"

text \<open>The options of \<open>all\<close>; an absent member takes the default of the destructuring.\<close>

record options =
  o_limit :: "int option"
  o_sort :: "string option"
  o_filter :: "string option"
  o_relationships :: "(string \<times> relnode) list option"

definition noOptions :: options where
  "noOptions = \<lparr>o_limit = None, o_sort = None, o_filter = None, o_relationships = None\<rparr>"

text \<open>\<open>all\<close>: the consumer handle is the engine together with the expanded relationships.\<close>

definition all_c :: "client \<Rightarrow> string \<Rightarrow> options \<Rightarrow> error + handle" where
  "all_c c type opts =
     (let lim = (case o_limit opts of None \<Rightarrow> -1 | Some n \<Rightarrow> n);
          sort_q = (case o_sort opts of None \<Rightarrow> [] | Some s \<Rightarrow> s);
          filter_q = (case o_filter opts of None \<Rightarrow> [] | Some f \<Rightarrow> f)
      in case collectionLink c type sort_q filter_q ''page[limit]=50'' of
           Inl e \<Rightarrow> Inl e
         | Inr lnk \<Rightarrow>
            (case expandRelationships (o_relationships opts) of
               Inl e \<Rightarrow> Inl e
             | Inr expanded \<Rightarrow> Inr (paginate (JStr lnk) lim, Some expanded)))"

section \<open>Relationship decoration and the consumption driver\<close>

fun splitOn :: "char \<Rightarrow> string \<Rightarrow> string list" where
  "splitOn c [] = [[]]"
| "splitOn c (x # xs) =
     (if x = c then [] # splitOn c xs
      else (case splitOn c xs of w # ws \<Rightarrow> (x # w) # ws | [] \<Rightarrow> [[x]]))"

text \<open>\<open>extractValue\<close>: walk the dotted path through own properties, \<open>false\<close> once a part
  is missing.\<close>

definition extractValue :: "string \<Rightarrow> jsval \<Rightarrow> jsval" where
  "extractValue path obj =
     foldl (\<lambda>exists part.
              if truthy exists \<and> hasOwn exists part = Inr True
              then (case getProp exists part of Inr v \<Rightarrow> v | Inl e \<Rightarrow> JBool False)
              else JBool False)
       obj (splitOn CHR ''.'' path)"

text \<open>
  The mirror that the decorated consumer builds for a resource: for each relationship a
  fresh engine over the resource's related link (\<open>target.limit || -1\<close>, with the target's
  own relationships), or \<open>None\<close> for the rejected promise when the link is missing.
\<close>

definition mirrorOf ::
  "relmap \<Rightarrow> jsval \<Rightarrow> mirror" where
  "mirrorOf relationships resource =
     map (\<lambda>(relationship, tg).
            (relationship,
             (let lnk = extractValue
                          (''relationships.'' @ (case field tg of None \<Rightarrow> ''undefined'' | Some f \<Rightarrow> f)
                             @ ''.links.related'') resource
              in if truthy lnk
                 then Some (paginate lnk (case tlimit tg of None \<Rightarrow> -1
                                           | Some n \<Rightarrow> if n = 0 then -1 else n),
                            trels tg)
                 else None)))
         relationships"

text \<open>\<open>decorateWithRelationships\<close>: without relationships the consumer itself, called with
  the resource alone.\<close>

definition decorateWithRelationships ::
  "(jsval \<Rightarrow> mirror option \<Rightarrow> 'a)
     \<Rightarrow> relmap option \<Rightarrow> jsval \<Rightarrow> 'a" where
  "decorateWithRelationships consumer relationships =
     (case relationships of
        None \<Rightarrow> (\<lambda>resource. consumer resource None)
      | Some rels \<Rightarrow> (\<lambda>resource. consumer resource (Some (mirrorOf rels resource))))"

text \<open>
  What a call of the visitor does: return a plain value, throw, or return a promise that
  is fulfilled (\<open>None\<close>) or rejected. The trace records when a truthy element reaches the
  driver, when the visitor is called, and when a call is known to be complete (it
  returned a plain value, or its promise was awaited).
\<close>

datatype vresult = Returns | Throws error | Promised "error option"

type_synonym visitor_fn = "jsval \<Rightarrow> mirror option \<Rightarrow> vresult"

datatype event =
    Arrived jsval
  | Invoked jsval "mirror option"
  | Completed jsval

datatype qentry =
    Thunk jsval "mirror option"
  | Result vresult

datatype continuation = CFalse | CAddMore

datatype outcome = Resolved continuation | RejectedWith error | NeverSettles

text \<open>
  Waiting for the promise that \<open>advance\<close> returned. A request that is still pending is
  answered by the server while the driver waits; \<open>srv\<close> gives the response for a URL.
  The indices that \<open>advance\<close> hands out always point into the store of requests
  (\<open>reachable_queued_valid\<close> below).
\<close>

definition awaitRequest ::
  "(jsval \<Rightarrow> http_result) \<Rightarrow> pstate \<Rightarrow> nat option \<Rightarrow> error option \<times> pstate" where
  "awaitRequest srv st w =
     (case w of
        None \<Rightarrow> (None, st)
      | Some i \<Rightarrow>
         (case snd (requests st ! i) of
            Fulfilled \<Rightarrow> (None, st)
          | Rejected e \<Rightarrow> (Some e, st)
          | Pending \<Rightarrow>
             (let st' = fetchDone st i (fetchDocument (srv (fst (requests st ! i)))) in
              case snd (requests st' ! i) of
                Rejected e \<Rightarrow> (Some e, st')
              | _ \<Rightarrow> (None, st'))))"

text \<open>\<open>queuedConsumer\<close>: with \<open>preserveOrder\<close> a thunk is queued; without, the visitor is
  called at once and its result queued. The error is what the call throws.\<close>

definition queuedConsumer ::
  "visitor_fn
     \<Rightarrow> bool \<Rightarrow> qentry list \<times> event list \<Rightarrow> jsval
     \<Rightarrow> mirror option
     \<Rightarrow> error option \<times> qentry list \<times> event list" where
  "queuedConsumer consumer preserveOrder qt resource relationships =
     (case qt of (queue, trace) \<Rightarrow>
        if preserveOrder then (None, queue @ [Thunk resource relationships], trace)
        else (case consumer resource relationships of
                Throws e \<Rightarrow> (Some e, queue, trace @ [Invoked resource relationships])
              | Returns \<Rightarrow>
                  (None, queue @ [Result Returns],
                   trace @ [Invoked resource relationships, Completed resource])
              | Promised r \<Rightarrow>
                  (None, queue @ [Result (Promised r)], trace @ [Invoked resource relationships])))"

datatype pullstep =
    Continue pstate "qentry list" "event list"
  | PullEnd pstate "qentry list" "event list"
  | PullFail error pstate "qentry list" "event list"

text \<open>One round of \<open>f\<close>: \<open>cursor.next()\<close>, then either the end of the pull phase or the
  wait, the resource callback and \<open>filteringConsumer\<close>.\<close>

definition pullStep ::
  "(jsval \<Rightarrow> http_result)
     \<Rightarrow> visitor_fn
     \<Rightarrow> relmap option \<Rightarrow> bool
     \<Rightarrow> pstate \<Rightarrow> qentry list \<Rightarrow> event list \<Rightarrow> pullstep" where
  "pullStep srv consumer relationships preserveOrder st queue trace =
     (case cursorNext st of
        (GenReturn, st1) \<Rightarrow> PullEnd st1 queue trace
      | (YieldFalse, st1) \<Rightarrow> PullEnd st1 queue trace
      | (YieldPromise w, st1) \<Rightarrow>
         (case awaitRequest srv st1 w of
            (Some e, st2) \<Rightarrow> PullFail e st2 queue trace
          | (None, st2) \<Rightarrow>
             (case takeResource st2 of
                (resource, st3) \<Rightarrow>
                  if truthy resource then
                    (case decorateWithRelationships
                            (queuedConsumer consumer preserveOrder (queue, trace @ [Arrived resource]))
                            relationships resource of
                       (Some e, queue', trace') \<Rightarrow> PullFail e st3 queue' trace'
                     | (None, queue', trace') \<Rightarrow> Continue st3 queue' trace')
                  else Continue st3 queue trace)))"

text \<open>The pull phase, with fuel for the rounds: \<open>None\<close> when the fuel runs out before the
  phase ends.\<close>

fun pullPhase ::
  "nat \<Rightarrow> (jsval \<Rightarrow> http_result)
     \<Rightarrow> visitor_fn
     \<Rightarrow> relmap option \<Rightarrow> bool
     \<Rightarrow> pstate \<Rightarrow> qentry list \<Rightarrow> event list \<Rightarrow> pullstep option" where
  "pullPhase 0 srv consumer relationships preserveOrder st queue trace = None"
| "pullPhase (Suc k) srv consumer relationships preserveOrder st queue trace =
     (case pullStep srv consumer relationships preserveOrder st queue trace of
        Continue st' queue' trace' \<Rightarrow> pullPhase k srv consumer relationships preserveOrder st' queue' trace'
      | r \<Rightarrow> Some r)"

text \<open>
  The loop that runs the queue after the pull phase (\<open>preserveOrder\<close> only): each thunk is
  called and, when it returns a promise, awaited through \<open>ret.catch(reject)\<close> before the
  next one is taken; the first rejection is what \<open>reject\<close> keeps. A throw inside this
  async executor is lost and leaves the promise unsettled. \<open>None\<close> in the result is that
  case.
\<close>

fun drain ::
  "visitor_fn
     \<Rightarrow> qentry list \<Rightarrow> error option \<Rightarrow> event list \<Rightarrow> error option option \<times> event list" where
  "drain consumer [] rejected trace = (Some rejected, trace)"
| "drain consumer (Result v # queue) rejected trace = (None, trace)"
| "drain consumer (Thunk resource relationships # queue) rejected trace =
     (case consumer resource relationships of
        Throws e \<Rightarrow> (None, trace @ [Invoked resource relationships])
      | Returns \<Rightarrow>
          drain consumer queue rejected (trace @ [Invoked resource relationships, Completed resource])
      | Promised None \<Rightarrow>
          drain consumer queue rejected (trace @ [Invoked resource relationships, Completed resource])
      | Promised (Some e) \<Rightarrow>
          drain consumer queue (case rejected of None \<Rightarrow> Some e | Some e0 \<Rightarrow> Some e0)
            (trace @ [Invoked resource relationships, Completed resource]))"

text \<open>\<open>consume\<close> on a handle: the outcome of the returned promise, the engine afterwards
  and the trace.\<close>

definition consume ::
  "nat \<Rightarrow> (jsval \<Rightarrow> http_result)
     \<Rightarrow> visitor_fn
     \<Rightarrow> bool \<Rightarrow> handle
     \<Rightarrow> (outcome \<times> pstate \<times> event list) option" where
  "consume fuel srv consumer preserveOrder h =
     (case pullPhase fuel srv consumer (snd h) preserveOrder (fst h) [] [] of
        None \<Rightarrow> None
      | Some (Continue st queue trace) \<Rightarrow> None
      | Some (PullFail e st queue trace) \<Rightarrow> Some (RejectedWith e, st, trace)
      | Some (PullEnd st queue trace) \<Rightarrow>
         (let next = (if canContinue st then CAddMore else CFalse) in
          if preserveOrder then
            (case drain consumer queue None trace of
               (None, trace') \<Rightarrow> Some (NeverSettles, st, trace')
             | (Some (Some e), trace') \<Rightarrow> Some (RejectedWith e, st, trace')
             | (Some None, trace') \<Rightarrow> Some (Resolved next, st, trace'))
          else Some (Resolved next, st, trace)))"

section \<open>Executions, servers and observations\<close>

text \<open>
  Every state an engine can be in: \<open>paginate\<close> creates it, and then pulls, resource
  callbacks, fetch completions (with any response) and \<open>addMore\<close> calls (with any
  argument) happen in any order. Real runs are among these.
\<close>

inductive reachable :: "pstate \<Rightarrow> bool" where
  created: "reachable (paginate lnk lim)"
| pulled: "reachable st \<Longrightarrow> reachable (snd (cursorNext st))"
| taken: "reachable st \<Longrightarrow> reachable (snd (takeResource st))"
| completed: "reachable st \<Longrightarrow> reachable (fetchDone st i resp)"
| raised: "reachable st \<Longrightarrow> reachable (addMore many st)"

text \<open>The fetch behind request \<open>i\<close> is outstanding.\<close>

definition pendingAt :: "pstate \<Rightarrow> nat \<Rightarrow> bool" where
  "pendingAt st i \<longleftrightarrow> i < length (requests st) \<and> snd (requests st ! i) = Pending"

text \<open>
  What holds in every reachable state: the in-flight set has no duplicates and holds
  nothing but the current link, every outstanding fetch is marked in it, and there is at
  most one outstanding fetch.
\<close>

definition engineInv :: "pstate \<Rightarrow> bool" where
  "engineInv st \<longleftrightarrow>
     distinct (inFlight st) \<and>
     (\<forall>v \<in> set (inFlight st). v = link st) \<and>
     (\<forall>i. pendingAt st i \<longrightarrow> fst (requests st ! i) \<in> set (inFlight st)) \<and>
     (\<forall>i j. pendingAt st i \<and> pendingAt st j \<longrightarrow> i = j)"

text \<open>A visitor that returns a plain value for every resource.\<close>

definition quietVisitor :: visitor_fn where
  "quietVisitor resource relationships = Returns"

text \<open>
  A chain of pages: each entry is a page's URL and its resources, and each document links
  to the URL of the entry after it. \<open>chainServer\<close> answers from the chain; \<open>serves\<close> says
  that a server answers every URL of the chain with that page's document.
\<close>

definition pageDoc :: "jsval list \<Rightarrow> jsval option \<Rightarrow> jsval" where
  "pageDoc rs nxt =
     JObj [(''data'', JArr rs),
           (''links'', JObj (case nxt of None \<Rightarrow> [] | Some u \<Rightarrow> [(''next'', u)]))]"

definition nextUrl :: "(jsval \<times> jsval list) list \<Rightarrow> jsval option" where
  "nextUrl rest = (case rest of [] \<Rightarrow> None | p # ps \<Rightarrow> Some (fst p))"

fun chainServer :: "(jsval \<times> jsval list) list \<Rightarrow> jsval \<Rightarrow> http_result" where
  "chainServer [] u = Http False None"
| "chainServer (p # rest) u =
     (if u = fst p then Http True (Some (pageDoc (snd p) (nextUrl rest)))
      else chainServer rest u)"



definition available :: "(jsval \<times> jsval list) list \<Rightarrow> jsval list" where
  "available chain = concat (map snd chain)"




text \<open>
  Sequential execution of pending invocations, as the spec words it: one call after the
  other in the given order, each complete before the next begins; a call that throws
  ends the run.
\<close>

fun runInOrder :: "visitor_fn \<Rightarrow> (jsval \<times> mirror option) list \<Rightarrow> event list" where
  "runInOrder consumer [] = []"
| "runInOrder consumer (a # as) =
     (case consumer (fst a) (snd a) of
        Throws e \<Rightarrow> [Invoked (fst a) (snd a)]
      | _ \<Rightarrow> Invoked (fst a) (snd a) # Completed (fst a) # runInOrder consumer as)"

text \<open>A server that answers as \<open>srv\<close> does, but whose fetch of \<open>u\<close> fails.\<close>

definition failingAt :: "jsval \<Rightarrow> (jsval \<Rightarrow> http_result) \<Rightarrow> jsval \<Rightarrow> http_result" where
  "failingAt u srv v = (if v = u then NetFail else srv v)"

text \<open>Chains for the concrete runs below.\<close>

definition twoPages :: "(jsval \<times> jsval list) list" where
  "twoPages = [(JStr ''p1'', [JStr ''a'', JStr ''b'']), (JStr ''p2'', [JStr ''c''])]"



text \<open>The queue and the trace that the arrival of the given elements leaves when their
  invocations are deferred.\<close>

definition thunksOf :: "(jsval \<times> mirror option) list \<Rightarrow> qentry list" where
  "thunksOf arrivals = map (\<lambda>a. Thunk (fst a) (snd a)) arrivals"

definition arrivedAll :: "(jsval \<times> mirror option) list \<Rightarrow> event list" where
  "arrivedAll arrivals = map (\<lambda>a. Arrived (fst a)) arrivals"

text \<open>A client whose link table knows one type.\<close>

definition articleClient :: client where
  "articleClient =
     newClient ''http://x''
       (Http True (Some (JObj [(''links'',
          JObj [(''node--article'', JStr ''http://x/jsonapi/node/article'')])])))"












section \<open>Facts about the engine's operations\<close>

lemma hasOwn_getProp: "hasOwn v k = Inr True \<Longrightarrow> \<exists>x. getProp v k = Inr x"
  by (cases v) (auto simp: hasOwn_def split: option.splits)

lemma pushRequest_may:
  "mayRequest st \<Longrightarrow>
     pushRequest st = st\<lparr>inFlight := List.insert (link st) (inFlight st),
                         requests := requests st @ [(link st, Pending)],
                         collectionRequests := collectionRequests st @ [length (requests st)]\<rparr>"
  by (simp add: pushRequest_def doRequest_def)

lemma pushRequest_not: "\<not> mayRequest st \<Longrightarrow> pushRequest st = st"
  by (simp add: pushRequest_def)

lemma onDocument_requests: "requests (snd (onDocument st u doc)) = requests st"
  by (simp add: onDocument_def Let_def split: sum.splits)

lemma onDocument_requests_eq: "onDocument st u doc = (r, st') \<Longrightarrow> requests st' = requests st"
  using onDocument_requests [of st u doc] by simp

lemma fetchDone_length: "length (requests (fetchDone st i resp)) = length (requests st)"
  by (auto simp: fetchDone_def Let_def dest: onDocument_requests_eq
      split: sum.splits prod.splits option.splits)

lemma takeResource_requests: "requests (snd (takeResource st)) = requests st"
  by (simp add: takeResource_def split: list.splits)

lemma addMore_requests: "requests (addMore m st) = requests st"
  by (simp add: addMore_def Let_def)

lemma onDocument_no_data:
  assumes "hasOwn doc ''data'' \<noteq> Inr True"
  shows "\<exists>e. fst (onDocument st u doc) = Some e" and "buffer (snd (onDocument st u doc)) = buffer st"
proof -
  from assms have "\<exists>e. documentData doc = Inl e"
    by (auto simp: documentData_def split: sum.splits bool.splits)
  then show "\<exists>e. fst (onDocument st u doc) = Some e" "buffer (snd (onDocument st u doc)) = buffer st"
    by (auto simp: onDocument_def Let_def split: sum.splits)
qed

lemma engineInv_fields:
  "inFlight st' = inFlight st \<Longrightarrow> link st' = link st \<Longrightarrow> requests st' = requests st \<Longrightarrow>
   engineInv st' = engineInv st"
  by (simp add: engineInv_def pendingAt_def)

lemma engineInv_pushRequest: "engineInv st \<Longrightarrow> engineInv (pushRequest st)"
proof (cases "mayRequest st")
  case False
  assume "engineInv st"
  with False show ?thesis by (simp add: pushRequest_not)
next
  case True
  assume inv: "engineInv st"
  from True have nin: "link st \<notin> set (inFlight st)" by (simp add: mayRequest_def)
  from inv nin have empty: "inFlight st = []"
    by (cases "inFlight st") (auto simp: engineInv_def)
  from inv empty have nopend: "\<not> pendingAt st i" for i
    by (auto simp: engineInv_def)
  show ?thesis
    using nopend empty
    by (auto simp: pushRequest_may [OF True] engineInv_def pendingAt_def nth_append
        split: if_splits)
qed

lemma engineInv_advance: "engineInv st \<Longrightarrow> engineInv (snd (advance st))"
  using engineInv_pushRequest [of st]
  by (auto simp: advance_def Let_def engineInv_def pendingAt_def)

lemma engineInv_cursorNext: "engineInv st \<Longrightarrow> engineInv (snd (cursorNext st))"
  using engineInv_advance [of st]
  by (auto simp: cursorNext_def engineInv_def pendingAt_def split: prod.splits)

lemma engineInv_takeResource: "engineInv st \<Longrightarrow> engineInv (snd (takeResource st))"
  by (auto simp: takeResource_def engineInv_def pendingAt_def split: list.splits)

lemma engineInv_addMore: "engineInv st \<Longrightarrow> engineInv (addMore many st)"
  by (auto simp: addMore_def Let_def engineInv_def pendingAt_def)

lemma onDocument_inFlight:
  "inFlight (snd (onDocument st u doc)) = removeAll u (inFlight st)"
  by (simp add: onDocument_def Let_def split: sum.splits)

lemma removeAll_only: "set xs \<subseteq> {u} \<Longrightarrow> removeAll u xs = []"
  by (induction xs) auto

lemma engineInv_fetchDone: "engineInv st \<Longrightarrow> engineInv (fetchDone st i resp)"
proof (cases "pendingAt st i")
  case False
  assume "engineInv st"
  moreover from False have "fetchDone st i resp = st"
    by (auto simp: fetchDone_def pendingAt_def)
  ultimately show ?thesis by simp
next
  case True
  assume inv: "engineInv st"
  let ?u = "fst (requests st ! i)"
  from inv True have only: "pendingAt st j \<Longrightarrow> j = i" for j
    by (auto simp: engineInv_def)
  show ?thesis
  proof (cases resp)
    case (Inl e)
    with True have eq: "fetchDone st i resp = st\<lparr>requests := (requests st)[i := (?u, Rejected e)]\<rparr>"
      by (simp add: fetchDone_def pendingAt_def)
    have "\<not> pendingAt (fetchDone st i resp) j" for j
      using only [of j] True by (auto simp: eq pendingAt_def nth_list_update split: if_splits)
    with inv show ?thesis
      by (simp add: engineInv_def eq)
  next
    case (Inr doc)
    obtain r st' where od: "onDocument st ?u doc = (r, st')" by (cases "onDocument st ?u doc")
    have rq: "requests st' = requests st" using od by (rule onDocument_requests_eq)
    have fl: "inFlight st' = removeAll ?u (inFlight st)"
      using onDocument_inFlight [of st ?u doc] od by simp
    from inv True have "?u \<in> set (inFlight st)" and "\<forall>v \<in> set (inFlight st). v = link st"
      by (auto simp: engineInv_def)
    then have "set (inFlight st) \<subseteq> {?u}"
      by (metis singletonI subsetI)
    then have fl_empty: "inFlight st' = []"
      unfolding fl by (rule removeAll_only)
    obtain s where s: "s \<noteq> Pending"
      and eq: "fetchDone st i resp = st'\<lparr>requests := (requests st)[i := (?u, s)]\<rparr>"
      using True Inr od rq
      by (cases r) (auto simp: fetchDone_def pendingAt_def)
    have "\<not> pendingAt (fetchDone st i resp) j" for j
      using only [of j] True s by (auto simp: eq pendingAt_def nth_list_update split: if_splits)
    then show ?thesis
      by (simp add: engineInv_def eq fl_empty)
  qed
qed

lemma engineInv_paginate: "engineInv (paginate lnk lim)"
proof -
  have "engineInv \<lparr>buffer = [], total_p = 0, inFlight = [], link = lnk, limit = lim,
                  count = 0, collectionRequests = [], requests = [], genDone = False\<rparr>"
    by (simp add: engineInv_def pendingAt_def)
  then show ?thesis
    unfolding paginate_def by (rule engineInv_pushRequest)
qed

lemma reachable_engineInv: "reachable st \<Longrightarrow> engineInv st"
  by (induction rule: reachable.induct)
    (simp_all add: engineInv_paginate engineInv_cursorNext engineInv_takeResource
      engineInv_fetchDone engineInv_addMore)

lemma pullStep_deferred:
  assumes "pullStep srv consumer rels True st q tr = Continue st' q' tr'"
  shows "(q' = q \<and> tr' = tr) \<or> (\<exists>r m. q' = q @ [Thunk r m] \<and> tr' = tr @ [Arrived r])"
  using assms
  by (auto simp: pullStep_def queuedConsumer_def decorateWithRelationships_def
      split: prod.splits pulled.splits option.splits if_splits)

lemma pullStep_deferred_end:
  assumes "pullStep srv consumer rels True st q tr = PullEnd st' q' tr'"
  shows "q' = q \<and> tr' = tr"
  using assms
  by (auto simp: pullStep_def queuedConsumer_def decorateWithRelationships_def
      split: prod.splits pulled.splits option.splits if_splits)

lemma pullPhase_deferred:
  assumes "pullPhase fuel srv consumer rels True st (thunksOf as) (arrivedAll as)
             = Some (PullEnd st' q tr)"
  shows "\<exists>as'. q = thunksOf as' \<and> tr = arrivedAll as'"
  using assms
proof (induction fuel arbitrary: st as)
  case 0
  then show ?case by simp
next
  case (Suc k)
  show ?case
  proof (cases "pullStep srv consumer rels True st (thunksOf as) (arrivedAll as)")
    case (Continue st1 q1 tr1)
    from pullStep_deferred [OF Continue]
    obtain as1 where "q1 = thunksOf as1" "tr1 = arrivedAll as1"
    proof
      assume "q1 = thunksOf as \<and> tr1 = arrivedAll as"
      then show ?thesis using that by blast
    next
      assume "\<exists>r m. q1 = thunksOf as @ [Thunk r m] \<and> tr1 = arrivedAll as @ [Arrived r]"
      then obtain r m where "q1 = thunksOf as @ [Thunk r m]" "tr1 = arrivedAll as @ [Arrived r]"
        by blast
      then have "q1 = thunksOf (as @ [(r, m)])" "tr1 = arrivedAll (as @ [(r, m)])"
        by (simp_all add: thunksOf_def arrivedAll_def)
      then show ?thesis using that by blast
    qed
    with Suc.prems Continue Suc.IH [of st1 as1] show ?thesis by simp
  next
    case (PullEnd st1 q1 tr1)
    with Suc.prems pullStep_deferred_end [OF PullEnd] show ?thesis by auto
  next
    case (PullFail e st1 q1 tr1)
    with Suc.prems show ?thesis by simp
  qed
qed

lemma drain_runInOrder:
  "snd (drain consumer (thunksOf as) rejected tr) = tr @ runInOrder consumer as"
  by (induction as arbitrary: rejected tr)
    (auto simp: thunksOf_def split: vresult.splits option.splits)

















lemma queued_valid_pushRequest:
  "\<forall>i \<in> set (collectionRequests st). i < length (requests st) \<Longrightarrow>
   \<forall>i \<in> set (collectionRequests (pushRequest st)). i < length (requests (pushRequest st))"
  by (auto simp: pushRequest_def doRequest_def)

lemma queued_valid_advance:
  assumes "\<forall>i \<in> set (collectionRequests st). i < length (requests st)"
  shows "\<forall>i \<in> set (collectionRequests (snd (advance st))).
           i < length (requests (snd (advance st)))"
proof -
  let ?s = "pushRequest st"
  note v = queued_valid_pushRequest [OF assms]
  have "set (tl (collectionRequests ?s)) \<subseteq> set (collectionRequests ?s)"
    by (cases "collectionRequests ?s") auto
  with v show ?thesis
    by (auto simp: advance_def Let_def)
qed

lemma queued_valid_cursorNext:
  assumes "\<forall>i \<in> set (collectionRequests st). i < length (requests st)"
  shows "\<forall>i \<in> set (collectionRequests (snd (cursorNext st))).
           i < length (requests (snd (cursorNext st)))"
proof -
  have "snd (cursorNext st) = st \<or> snd (cursorNext st) = st\<lparr>genDone := True\<rparr> \<or>
        snd (cursorNext st) = snd (advance st)"
    by (auto simp: cursorNext_def split: prod.splits)
  with assms queued_valid_advance [OF assms] show ?thesis
    by auto
qed

lemma onDocument_collectionRequests:
  "collectionRequests (snd (onDocument st u doc)) = collectionRequests st"
  by (simp add: onDocument_def Let_def split: sum.splits)

lemma queued_valid_fetchDone:
  assumes "\<forall>i \<in> set (collectionRequests st). i < length (requests st)"
  shows "\<forall>i \<in> set (collectionRequests (fetchDone st j resp)).
           i < length (requests (fetchDone st j resp))"
proof -
  have "collectionRequests (fetchDone st j resp) = collectionRequests st"
    using onDocument_collectionRequests [of st "fst (requests st ! j)"]
    by (auto simp: fetchDone_def Let_def split: sum.splits prod.splits option.splits)
      (metis snd_conv)+
  with assms show ?thesis by (simp add: fetchDone_length)
qed

lemma reachable_queued_valid:
  "reachable st \<Longrightarrow> \<forall>i \<in> set (collectionRequests st). i < length (requests st)"
proof (induction rule: reachable.induct)
  case (created lnk lim)
  show ?case by (auto simp: paginate_def pushRequest_def doRequest_def)
next
  case (pulled st)
  from pulled.IH show ?case by (rule queued_valid_cursorNext)
next
  case (taken st)
  then show ?case by (auto simp: takeResource_def split: list.splits)
next
  case (completed st i resp)
  from completed.IH show ?case by (rule queued_valid_fetchDone)
next
  case (raised st many)
  then show ?case by (simp add: addMore_def Let_def)
qed




lemma available_append: "available (xs @ ys) = available xs @ available ys"
  by (simp add: available_def)













section \<open>Claims\<close>

subsection \<open>C1: Unknown types\<close>

text \<open>
  C1, at the input where it fails. The link table has no \<open>node--page\<close>. \<open>getLink\<close> resolves
  to \<open>undefined\<close> instead of failing, so the collection link is the text
  \<open>undefined?page[limit]=50\<close>, and \<open>all\<close> (here with an empty relationship spec) returns
  a sequence whose first fetch, for that URL, is already issued.
\<close>

theorem all_of_unknown_type_fetches_undefined:
  "getLink articleClient ''node--page'' = Inr JUndefined \<and>
   all_c articleClient ''node--page'' (noOptions\<lparr>o_relationships := Some []\<rparr>) =
     Inr (\<lparr>buffer = [], total_p = 0, inFlight = [JStr ''undefined?page[limit]=50''],
           link = JStr ''undefined?page[limit]=50'', limit = -1, count = 0,
           collectionRequests = [0],
           requests = [(JStr ''undefined?page[limit]=50'', Pending)], genDone = False\<rparr>,
          Some [])"
  by code_simp


subsection \<open>C2: Failed fetches\<close>

text \<open>
  C2, at the input where it fails. Page 1 links to page 2, whose fetch fails. The second
  pull triggers that fetch and delivers \<open>b\<close>; the third pull waits for the request and
  fails, so \<open>consume\<close> rejects. \<open>doRequest\<close> removes the URL from the in-flight set in its
  success callback only: after the failure page 2's URL is still in the set, and a
  further pull issues no fetch for it, where the claim says that the URL has left the set
  and can be fetched again.
\<close>

theorem failed_fetch_stays_in_flight:
  "pullStep (failingAt (JStr ''p2'') (chainServer twoPages)) quietVisitor None False
     \<lparr>buffer = [JStr ''b''], total_p = 2, inFlight = [], link = JStr ''p2'', limit = -1,
        count = 1, collectionRequests = [], requests = [(JStr ''p1'', Fulfilled)],
        genDone = False\<rparr> [] [] =
     Continue
       \<lparr>buffer = [], total_p = 2, inFlight = [JStr ''p2''], link = JStr ''p2'', limit = -1,
          count = 2, collectionRequests = [1],
          requests = [(JStr ''p1'', Fulfilled), (JStr ''p2'', Pending)], genDone = False\<rparr>
       [Result Returns] [Arrived (JStr ''b''), Invoked (JStr ''b'') None, Completed (JStr ''b'')] \<and>
   consume 10 (failingAt (JStr ''p2'') (chainServer twoPages)) quietVisitor False
     (paginate (JStr ''p1'') (-1), None) =
     Some (RejectedWith NetworkError,
           \<lparr>buffer = [], total_p = 2, inFlight = [JStr ''p2''], link = JStr ''p2'', limit = -1,
              count = 2, collectionRequests = [],
              requests = [(JStr ''p1'', Fulfilled), (JStr ''p2'', Rejected NetworkError)],
              genDone = False\<rparr>,
           [Arrived (JStr ''a''), Invoked (JStr ''a'') None, Completed (JStr ''a''),
            Arrived (JStr ''b''), Invoked (JStr ''b'') None, Completed (JStr ''b'')]) \<and>
   requests (snd (cursorNext
           \<lparr>buffer = [], total_p = 2, inFlight = [JStr ''p2''], link = JStr ''p2'', limit = -1,
              count = 2, collectionRequests = [],
              requests = [(JStr ''p1'', Fulfilled), (JStr ''p2'', Rejected NetworkError)],
              genDone = False\<rparr>)) =
     [(JStr ''p1'', Fulfilled), (JStr ''p2'', Rejected NetworkError)]"
  by code_simp


subsection \<open>C3: Raising the cap\<close>

text \<open>
  C3, at the input where it fails. A handle capped at 2 gives out \<open>addMore\<close>; calling it
  with no argument removes the cap, and calling it again with 5 adds 5 to the sentinel
  \<open>-1\<close>: the sequence that was unlimited is now capped at 4 elements in all, where the
  claim says that the cap is raised by \<open>n\<close> whether it was finite or unlimited.
\<close>

theorem addMore_after_unlimited_caps_at_four:
  "limit (addMore None (paginate (JStr ''p1'') 2)) = -1 \<and>
   limit (addMore (Some 5) (addMore None (paginate (JStr ''p1'') 2))) = 4"
  by (simp add: addMore_def paginate_def pushRequest_def mayRequest_def doRequest_def)


subsection \<open>C4: The cap and the result of consume\<close>





subsection \<open>C5: Requests without relationships\<close>

text \<open>
  C5, at the input where it fails. \<open>all\<close> with no relationship spec passes \<open>null\<close> to
  \<open>expandRelationships\<close>, which throws on it: the request fails with a TypeError before
  any engine exists. The decorator itself does pass a consumer through when it is given
  no relationships.
\<close>

theorem all_without_relationships_throws:
  "expandRelationships None = Inl TypeError \<and>
   all_c articleClient ''node--article'' noOptions = Inl TypeError \<and>
   decorateWithRelationships consumer None resource = consumer resource None"
proof (intro conjI)
  show "expandRelationships None = Inl TypeError"
    by (simp add: expandRelationships_def)
  show "all_c articleClient ''node--article'' noOptions = Inl TypeError"
    by code_simp
  show "decorateWithRelationships consumer None resource = consumer resource None"
    by (simp add: decorateWithRelationships_def)
qed


subsection \<open>C6: Order preservation\<close>

text \<open>
  C6: when the pull phase of a \<open>consume\<close> with \<open>preserveOrder\<close> ends, its queue holds one
  pending invocation per arrived element, in arrival order, and its trace holds the
  arrivals only: no visitor call has been made. \<open>consume\<close> then makes the calls one after
  the other in that order, each complete before the next begins.
\<close>

theorem preserveOrder_defers_then_runs_in_arrival_order:
  assumes "pullPhase fuel srv consumer rels True st [] [] = Some (PullEnd st' queue trace)"
  shows "\<exists>arrivals out.
           queue = map (\<lambda>a. Thunk (fst a) (snd a)) arrivals \<and>
           trace = map (\<lambda>a. Arrived (fst a)) arrivals \<and>
           consume fuel srv consumer True (st, rels)
             = Some (out, st', trace @ runInOrder consumer arrivals)"
proof -
  have "pullPhase fuel srv consumer rels True st (thunksOf []) (arrivedAll [])
          = Some (PullEnd st' queue trace)"
    using assms by (simp add: thunksOf_def arrivedAll_def)
  from pullPhase_deferred [OF this]
  obtain as where q: "queue = thunksOf as" and t: "trace = arrivedAll as" by blast
  obtain x tr' where d: "drain consumer queue None trace = (x, tr')"
    by (cases "drain consumer queue None trace")
  with drain_runInOrder [of consumer as None trace] q
  have tr': "tr' = trace @ runInOrder consumer as" by simp
  have "\<exists>out. consume fuel srv consumer True (st, rels) = Some (out, st', tr')"
    using assms d by (auto simp: consume_def Let_def split: option.splits)
  with q t tr' show ?thesis
    unfolding thunksOf_def arrivedAll_def by blast
qed

text \<open>Two pages, three resources, unlimited: three deferred calls, run in order.\<close>

theorem preserveOrder_defers_then_runs_in_arrival_order_witness:
  "pullPhase 10 (chainServer twoPages) quietVisitor None True (paginate (JStr ''p1'') (-1)) [] []
     = Some (PullEnd
         \<lparr>buffer = [], total_p = 3, inFlight = [], link = JBool False, limit = -1, count = 3,
            collectionRequests = [],
            requests = [(JStr ''p1'', Fulfilled), (JStr ''p2'', Fulfilled)], genDone = True\<rparr>
         [Thunk (JStr ''a'') None, Thunk (JStr ''b'') None, Thunk (JStr ''c'') None]
         [Arrived (JStr ''a''), Arrived (JStr ''b''), Arrived (JStr ''c'')]) \<and>
   (\<exists>arrivals out.
      [Thunk (JStr ''a'') None, Thunk (JStr ''b'') None, Thunk (JStr ''c'') None]
        = map (\<lambda>a. Thunk (fst a) (snd a)) arrivals \<and>
      consume 10 (chainServer twoPages) quietVisitor True (paginate (JStr ''p1'') (-1), None)
        = Some (out,
            \<lparr>buffer = [], total_p = 3, inFlight = [], link = JBool False, limit = -1, count = 3,
               collectionRequests = [],
               requests = [(JStr ''p1'', Fulfilled), (JStr ''p2'', Fulfilled)], genDone = True\<rparr>,
            [Arrived (JStr ''a''), Arrived (JStr ''b''), Arrived (JStr ''c'')]
              @ runInOrder quietVisitor arrivals))"
proof -
  have e: "pullPhase 10 (chainServer twoPages) quietVisitor None True (paginate (JStr ''p1'') (-1)) [] []
     = Some (PullEnd
         \<lparr>buffer = [], total_p = 3, inFlight = [], link = JBool False, limit = -1, count = 3,
            collectionRequests = [],
            requests = [(JStr ''p1'', Fulfilled), (JStr ''p2'', Fulfilled)], genDone = True\<rparr>
         [Thunk (JStr ''a'') None, Thunk (JStr ''b'') None, Thunk (JStr ''c'') None]
         [Arrived (JStr ''a''), Arrived (JStr ''b''), Arrived (JStr ''c'')])"
    by code_simp
  from preserveOrder_defers_then_runs_in_arrival_order [OF e] e show ?thesis
    by (elim exE conjE, intro conjI exI) assumption+
qed


subsection \<open>C7: One fetch per URL\<close>

text \<open>
  C7: in every state an engine can reach, the in-flight set lists no URL twice, no two
  outstanding fetches are for the same URL, every outstanding fetch has its URL in the
  in-flight set, and the request guard issues nothing while the link is in that set.
\<close>

theorem single_fetch_in_flight_per_url:
  assumes "reachable st"
  shows "distinct (inFlight st) \<and>
         (\<forall>i<length (requests st). \<forall>j<length (requests st).
            snd (requests st ! i) = Pending \<and> snd (requests st ! j) = Pending \<and>
            fst (requests st ! i) = fst (requests st ! j) \<longrightarrow> i = j) \<and>
         (\<forall>i<length (requests st).
            snd (requests st ! i) = Pending \<longrightarrow> fst (requests st ! i) \<in> set (inFlight st)) \<and>
         (link st \<in> set (inFlight st) \<longrightarrow> requests (pushRequest st) = requests st)"
proof -
  from assms have inv: "engineInv st" by (rule reachable_engineInv)
  have "link st \<in> set (inFlight st) \<longrightarrow> requests (pushRequest st) = requests st"
    by (simp add: pushRequest_def mayRequest_def)
  with inv show ?thesis
    unfolding engineInv_def pendingAt_def by blast
qed

text \<open>After the first pull of a fresh unlimited engine the one fetch is still the only one.\<close>

theorem single_fetch_in_flight_per_url_witness:
  "reachable (snd (cursorNext (paginate (JStr ''p1'') (-1)))) \<and>
   distinct (inFlight (snd (cursorNext (paginate (JStr ''p1'') (-1))))) \<and>
   inFlight (snd (cursorNext (paginate (JStr ''p1'') (-1)))) = [JStr ''p1''] \<and>
   requests (snd (cursorNext (paginate (JStr ''p1'') (-1)))) = [(JStr ''p1'', Pending)] \<and>
   requests (pushRequest (snd (cursorNext (paginate (JStr ''p1'') (-1))))) = [(JStr ''p1'', Pending)]"
proof -
  let ?st = "snd (cursorNext (paginate (JStr ''p1'') (-1)))"
  have r: "reachable ?st" by (rule reachable.pulled) (rule reachable.created)
  have e: "inFlight ?st = [JStr ''p1'']" "requests ?st = [(JStr ''p1'', Pending)]"
    "link ?st = JStr ''p1''"
    by code_simp+
  from single_fetch_in_flight_per_url [OF r] e r show ?thesis by simp
qed


subsection \<open>C8: Read-ahead\<close>





subsection \<open>C9: Unwrapping documents\<close>





subsection \<open>C10: The first page\<close>

text \<open>
  C10: with a truthy starting link and a cap that is unlimited or above zero, \<open>paginate\<close>
  itself issues the fetch of the first page, before anything is pulled (nothing counted,
  nothing buffered); and neither the arrival of a page, nor the callback that takes a
  resource, nor \<open>addMore\<close> creates a request, so every later page waits for a pull.
\<close>

theorem paginate_fetches_first_page_eagerly:
  assumes "truthy lnk" and "lim = -1 \<or> 0 < lim"
  shows "requests (paginate lnk lim) = [(lnk, Pending)] \<and>
         inFlight (paginate lnk lim) = [lnk] \<and>
         collectionRequests (paginate lnk lim) = [0] \<and>
         count (paginate lnk lim) = 0 \<and> buffer (paginate lnk lim) = [] \<and>
         (\<forall>st i resp. length (requests (fetchDone st i resp)) = length (requests st)) \<and>
         (\<forall>st. requests (snd (takeResource st)) = requests st) \<and>
         (\<forall>st m. requests (addMore m st) = requests st)"
  using assms
  by (auto simp: paginate_def pushRequest_def mayRequest_def doRequest_def
      fetchDone_length takeResource_requests addMore_requests)

text \<open>A handle over \<open>p1\<close> with a cap of 3: one pending request for \<open>p1\<close>, marked in flight
  and queued.\<close>

theorem paginate_fetches_first_page_eagerly_witness:
  "truthy (JStr ''p1'') \<and> ((3::int) = -1 \<or> (0::int) < 3) \<and>
   requests (paginate (JStr ''p1'') 3) = [(JStr ''p1'', Pending)] \<and>
   inFlight (paginate (JStr ''p1'') 3) = [JStr ''p1''] \<and>
   collectionRequests (paginate (JStr ''p1'') 3) = [0]"
  using paginate_fetches_first_page_eagerly [of "JStr ''p1''" 3] by simp

end
